theory Spec2Isabelle
  imports Main "HOL-Library.Word" "HOL-Library.Signed_Division"
begin

unbundle bit_operations_syntax

section \<open>pmf2bin: premaster payload to CD-ROM XA Mode 2 Form 1 image\<close>

text \<open>
  A shallow embedding of the converter's Go source, in the revision that computes EDC and ECC.
  Go's \<^verbatim>\<open>byte\<close>, \<^verbatim>\<open>uint16\<close> and \<^verbatim>\<open>uint32\<close> are words of that width. Go's \<^verbatim>\<open>int\<close>
  (track numbers, block addresses, sizes), whose width depends on the platform, is modelled as
  the unbounded \<^typ>\<open>int\<close>, with Go's truncating \<^verbatim>\<open>/\<close> and \<^verbatim>\<open>%\<close> as \<open>sdiv\<close> and \<open>smod\<close>: the
  results hold for descriptors whose numbers and sizes stay inside the machine range, and say
  nothing about wrap-around of \<^verbatim>\<open>int\<close>. File operations (open, create, buffered write,
  flush, sync, close) are taken to succeed; the output stream is the list of bytes written so
  far. Console output (progress lines, the data-after-audio warning) is not modelled.
\<close>

type_synonym byte = "8 word"

subsection \<open>Data model\<close>

record Track =
  Num :: int
  Mode :: int
  Start :: int
  End :: int
  Pregap :: int

definition pmfSector :: nat where
  "pmfSector = 2056"

definition binSector :: nat where
  "binSector = 2352"

text \<open>
  Every error return and every panic of the source is a value. \<open>WrongSize\<close> and
  \<open>IndexOutOfRange\<close> are the two run-time panics (the explicit length check of the parity
  functions, and Go's bounds check on a slice read).
\<close>

datatype error =
    NoTracks
  | TrackCountMismatch int nat
  | InvalidMode int int
  | NumberingMismatch int int
  | StartAfterEnd int int int
  | NegativePregap int int
  | Overlap int int int
  | LengthMismatch int int
  | Truncated nat nat
  | NotConsumed int
  | WrongSize nat nat
  | IndexOutOfRange nat nat

subsection \<open>Lookup tables built by \<^verbatim>\<open>init\<close>\<close>

definition polyEDC :: "32 word" where
  "polyEDC = 0xD8018001"

text \<open>One round of the inner loop \<^verbatim>\<open>for j := 0; j < 8; j++\<close>.\<close>

definition edcRound :: "32 word \<Rightarrow> 32 word" where
  "edcRound r = (if r AND 1 \<noteq> 0 then drop_bit 1 r XOR polyEDC else drop_bit 1 r)"

text \<open>The outer loop \<^verbatim>\<open>for i := 0; i < 256; i++ { ...; edcLUT[i] = r }\<close> on the zeroed array.\<close>

definition edcLUT :: "32 word list" where
  "edcLUT = fold (\<lambda>i lut. lut[i := (edcRound ^^ 8) (of_nat i)]) [0..<256] (replicate 256 0)"

text \<open>
  The first Galois-field loop: the state is \<^verbatim>\<open>(gfPow, gfLog, b)\<close> with \<^verbatim>\<open>b\<close> a \<^verbatim>\<open>uint16\<close>.
\<close>

definition gfStep :: "nat \<Rightarrow> byte list \<times> byte list \<times> 16 word \<Rightarrow> byte list \<times> byte list \<times> 16 word" where
  "gfStep i s =
     (case s of (pow, lg, b) \<Rightarrow>
        (pow[i := ucast b],
         lg[unat b := of_nat i],
         if push_bit 1 b AND 0x100 \<noteq> 0 then push_bit 1 b XOR 0x11d else push_bit 1 b))"

definition gfInit :: "byte list \<times> byte list \<times> 16 word" where
  "gfInit = fold gfStep [0..<255] (replicate 509 0, replicate 256 0, 1)"

text \<open>The second loop \<^verbatim>\<open>for i := 255; i < 509; i++ { gfPow[i] = gfPow[i-255] }\<close>.\<close>

definition gfMirror :: "nat \<Rightarrow> byte list \<Rightarrow> byte list" where
  "gfMirror n pow = fold (\<lambda>i p. p[i := p ! (i - 255)]) [255..<n] pow"

definition gfPow :: "byte list" where
  "gfPow = gfMirror 509 (fst gfInit)"

definition gfLog :: "byte list" where
  "gfLog = fst (snd gfInit)"

subsection \<open>EDC engine\<close>

fun edcLoop :: "byte list \<Rightarrow> 32 word \<Rightarrow> 32 word" where
  "edcLoop [] edc = edc"
| "edcLoop (b # data) edc =
     edcLoop data (drop_bit 8 edc XOR edcLUT ! unat ((ucast edc :: byte) XOR b))"

definition computeEDC :: "byte list \<Rightarrow> byte list" where
  "computeEDC data =
     (let edc = edcLoop data 0
      in [ucast edc, ucast (drop_bit 8 edc), ucast (drop_bit 16 edc), ucast (drop_bit 24 edc)])"

subsection \<open>Galois field and parity engine\<close>

definition gfMult :: "byte \<Rightarrow> byte \<Rightarrow> byte" where
  "gfMult a b =
     (if a = 0 \<or> b = 0 then 0
      else gfPow ! (unat (gfLog ! unat a) + unat (gfLog ! unat b)))"

record lfsr_regs =
  r0Lsb :: byte
  r0Msb :: byte
  r1Lsb :: byte
  r1Msb :: byte

definition zeroRegs :: lfsr_regs where
  "zeroRegs = \<lparr>r0Lsb = 0, r0Msb = 0, r1Lsb = 0, r1Msb = 0\<rparr>"

text \<open>
  The body shared by both parity loops once the two bytes are read: header masking
  (\<^verbatim>\<open>if pos < 4 { dataLsb = 0; if pos < 3 { dataMsb = 0 } }\<close>), feedback and shift, with
  \<^verbatim>\<open>g1 = 3\<close> and \<^verbatim>\<open>g0 = 2\<close>.
\<close>

definition lfsrShift :: "nat \<Rightarrow> byte \<Rightarrow> byte \<Rightarrow> lfsr_regs \<Rightarrow> lfsr_regs" where
  "lfsrShift pos dLsb dMsb r =
     (let dataLsb = (if pos < 4 then 0 else dLsb);
          dataMsb = (if pos < 4 \<and> pos < 3 then 0 else dMsb);
          feedbackLsb = dataLsb XOR r1Lsb r;
          feedbackMsb = dataMsb XOR r1Msb r
      in \<lparr>r0Lsb = gfMult feedbackLsb 2,
          r0Msb = gfMult feedbackMsb 2,
          r1Lsb = r0Lsb r XOR gfMult feedbackLsb 3,
          r1Msb = r0Msb r XOR gfMult feedbackMsb 3\<rparr>)"

text \<open>Reading \<^verbatim>\<open>sector[pos]\<close> and \<^verbatim>\<open>sector[pos+1]\<close>: Go panics on an index out of range.\<close>

definition readPair :: "byte list \<Rightarrow> nat \<Rightarrow> error + byte \<times> byte" where
  "readPair sector pos =
     (if length sector \<le> pos then Inl (IndexOutOfRange pos (length sector))
      else if length sector \<le> pos + 1 then Inl (IndexOutOfRange (pos + 1) (length sector))
      else Inr (sector ! pos, sector ! (pos + 1)))"

function pRows :: "byte list \<Rightarrow> nat \<Rightarrow> nat \<Rightarrow> lfsr_regs \<Rightarrow> error + lfsr_regs" where
  "pRows sector row pos r =
     (if row < 24 then
        (case readPair sector pos of
           Inl e \<Rightarrow> Inl e
         | Inr d \<Rightarrow> pRows sector (row + 1) (pos + 86) (lfsrShift pos (fst d) (snd d) r))
      else Inr r)"
  by pat_completeness auto
termination
  by (relation "measure (\<lambda>(sector, row, pos, r). 24 - row)") auto

function pCols :: "byte list \<Rightarrow> nat \<Rightarrow> byte list \<Rightarrow> error + byte list" where
  "pCols sector col parity =
     (if col < 43 then
        (case pRows sector 0 (2 * col) zeroRegs of
           Inl e \<Rightarrow> Inl e
         | Inr r \<Rightarrow>
             pCols sector (col + 1)
               (parity[col * 2 := r1Lsb r, col * 2 + 1 := r1Msb r,
                       86 + col * 2 := r0Lsb r, 86 + col * 2 + 1 := r0Msb r]))
      else Inr parity)"
  by pat_completeness auto
termination
  by (relation "measure (\<lambda>(sector, col, parity). 43 - col)") auto

definition pParityLFSR :: "byte list \<Rightarrow> error + byte list" where
  "pParityLFSR sector =
     (if length sector \<noteq> 2064 then Inl (WrongSize 2064 (length sector))
      else pCols sector 0 (replicate 172 0))"

function qSteps :: "byte list \<Rightarrow> nat \<Rightarrow> nat \<Rightarrow> lfsr_regs \<Rightarrow> error + lfsr_regs" where
  "qSteps sector step pos r =
     (if step < 43 then
        (case readPair sector (if 2236 \<le> pos then pos - 2236 else pos) of
           Inl e \<Rightarrow> Inl e
         | Inr d \<Rightarrow>
             qSteps sector (step + 1) ((if 2236 \<le> pos then pos - 2236 else pos) + 88)
               (lfsrShift (if 2236 \<le> pos then pos - 2236 else pos) (fst d) (snd d) r))
      else Inr r)"
  by pat_completeness auto
termination
  by (relation "measure (\<lambda>(sector, step, pos, r). 43 - step)") auto

function qDiags :: "byte list \<Rightarrow> nat \<Rightarrow> byte list \<Rightarrow> error + byte list" where
  "qDiags sector diag parity =
     (if diag < 26 then
        (case qSteps sector 0 (2 * 43 * diag) zeroRegs of
           Inl e \<Rightarrow> Inl e
         | Inr r \<Rightarrow>
             qDiags sector (diag + 1)
               (parity[diag * 2 := r1Lsb r, diag * 2 + 1 := r1Msb r,
                       52 + diag * 2 := r0Lsb r, 52 + diag * 2 + 1 := r0Msb r]))
      else Inr parity)"
  by pat_completeness auto
termination
  by (relation "measure (\<lambda>(sector, diag, parity). 26 - diag)") auto

definition qParityLFSR :: "byte list \<Rightarrow> error + byte list" where
  "qParityLFSR sector =
     (if length sector \<noteq> 2236 then Inl (WrongSize 2236 (length sector))
      else qDiags sector 0 (replicate 104 0))"

subsection \<open>Track list validation (\<^verbatim>\<open>parseFF\<close>, after the descriptor is scanned)\<close>

text \<open>
  The scanning loop of \<^verbatim>\<open>parseFF\<close> leaves the declared count \<^verbatim>\<open>numExpected\<close> (0 when absent)
  and the tracks appended in file order, each with \<^verbatim>\<open>Pregap\<close> still 0. What follows is the rest
  of the function. The validation loop writes \<^verbatim>\<open>Pregap\<close> into the slice as it goes.
\<close>

function validateLoop :: "nat \<Rightarrow> Track list \<Rightarrow> error + Track list" where
  "validateLoop i tracks =
     (if i < length tracks then
        (if Mode (tracks ! i) \<noteq> 2 \<and> Mode (tracks ! i) \<noteq> 4 then
           Inl (InvalidMode (Num (tracks ! i)) (Mode (tracks ! i)))
         else if Num (tracks ! i) \<noteq> int i + 1 then
           Inl (NumberingMismatch (Num (tracks ! i)) (int i + 1))
         else if Start (tracks ! i) > End (tracks ! i) then
           Inl (StartAfterEnd (Num (tracks ! i)) (Start (tracks ! i)) (End (tracks ! i)))
         else if i = 0 then
           validateLoop (i + 1) (tracks[i := (tracks ! i)\<lparr>Pregap := 0\<rparr>])
         else if Start (tracks ! i) - End (tracks ! (i - 1)) - 1 < 0 then
           Inl (NegativePregap (Num (tracks ! i)) (Start (tracks ! i) - End (tracks ! (i - 1)) - 1))
         else if Start (tracks ! i) \<le> End (tracks ! (i - 1)) then
           Inl (Overlap (Num (tracks ! i)) (Start (tracks ! i)) (End (tracks ! (i - 1))))
         else
           validateLoop (i + 1)
             (tracks[i := (tracks ! i)\<lparr>Pregap := Start (tracks ! i) - End (tracks ! (i - 1)) - 1\<rparr>]))
      else Inr tracks)"
  by pat_completeness auto
termination
  by (relation "measure (\<lambda>(i, tracks). length tracks - i)") auto

definition expectedSize :: "Track list \<Rightarrow> int" where
  "expectedSize tracks =
     fold (\<lambda>t acc.
             if Mode t = 4 then acc + (End t - Start t + 1) * int binSector
             else acc + (End t - Start t + 1) * int pmfSector)
          tracks 0"

definition parseFF :: "int \<Rightarrow> Track list \<Rightarrow> int \<Rightarrow> error + Track list" where
  "parseFF numExpected tracks pmfLen =
     (if length tracks = 0 then Inl NoTracks
      else if numExpected > 0 \<and> int (length tracks) \<noteq> numExpected then
        Inl (TrackCountMismatch numExpected (length tracks))
      else
        (case validateLoop 0 tracks of
           Inl e \<Rightarrow> Inl e
         | Inr tracks' \<Rightarrow>
             if expectedSize tracks' \<noteq> pmfLen then Inl (LengthMismatch (expectedSize tracks') pmfLen)
             else Inr tracks'))"

subsection \<open>Disc time\<close>

definition toBCD :: "int \<Rightarrow> byte" where
  "toBCD v = word_of_int (push_bit 4 (v sdiv 10) OR (v smod 10))"

definition lbaToMSF :: "int \<Rightarrow> int \<times> int \<times> int" where
  "lbaToMSF lba = (lba sdiv (60 * 75), (lba sdiv 75) smod 60, lba smod 75)"

subsection \<open>Sector encoder (\<^verbatim>\<open>buildBin\<close>)\<close>

definition syncPattern :: "byte list" where
  "syncPattern = [0x00, 0xFF, 0xFF, 0xFF, 0xFF, 0xFF, 0xFF, 0xFF, 0xFF, 0xFF, 0xFF, 0x00]"

text \<open>
  \<^verbatim>\<open>copy(dst[lo:hi], src)\<close> on an array \<open>dst\<close> with \<open>lo \<le> hi \<le> length dst\<close> (all uses have
  constant bounds inside the 2352-byte sector): the first \<open>min (hi - lo) (length src)\<close> bytes of
  \<open>src\<close> overwrite \<open>dst\<close> from \<open>lo\<close>. \<open>subslice xs lo hi\<close> is the value of \<^verbatim>\<open>xs[lo:hi]\<close>.
\<close>

definition copyAt :: "'a list \<Rightarrow> nat \<Rightarrow> nat \<Rightarrow> 'a list \<Rightarrow> 'a list" where
  "copyAt dst lo hi src =
     take lo dst @ take (hi - lo) src @ drop (lo + min (hi - lo) (length src)) dst"

definition subslice :: "'a list \<Rightarrow> nat \<Rightarrow> nat \<Rightarrow> 'a list" where
  "subslice xs lo hi = take (hi - lo) (drop lo xs)"

text \<open>Sync and 4-byte header, written into a sector in both the pregap and the data branch.\<close>

definition writeHeader :: "byte list \<Rightarrow> Track \<Rightarrow> int \<Rightarrow> byte list" where
  "writeHeader sector t lba =
     (case lbaToMSF lba of (mn, sec, frame) \<Rightarrow>
        (copyAt sector 0 12 syncPattern)
          [12 := toBCD mn, 13 := toBCD sec, 14 := toBCD frame, 15 := word_of_int (Mode t)])"

definition pregapSector :: "Track \<Rightarrow> int \<Rightarrow> byte list" where
  "pregapSector t s =
     (if Mode t = 2 then writeHeader (replicate binSector 0) t (Start t - Pregap t + s + 150)
      else replicate binSector 0)"

text \<open>
  The state of one encode pass: the payload buffer (the audio branch writes through the slice
  \<^verbatim>\<open>data := pmf[offset:end]\<close> into it), the cursor, and the bytes handed to the writer.
\<close>

record enc_state =
  pmf :: "byte list"
  offset :: nat
  out :: "byte list"

text \<open>
  \<^verbatim>\<open>for i := 0; i+1 < len(data); i += 2 { data[i], data[i+1] = data[i+1], data[i] }\<close> where
  \<^verbatim>\<open>data\<close> aliases the buffer from index \<open>base\<close> and has length \<open>n\<close>.
\<close>

function swapLoop :: "nat \<Rightarrow> nat \<Rightarrow> nat \<Rightarrow> byte list \<Rightarrow> byte list" where
  "swapLoop base n i buf =
     (if i + 1 < n then
        swapLoop base n (i + 2)
          (buf[base + i := buf ! (base + i + 1), base + i + 1 := buf ! (base + i)])
      else buf)"
  by pat_completeness auto
termination
  by (relation "measure (\<lambda>(base, n, i, buf). n - i)") auto

definition dataSector :: "Track \<Rightarrow> int \<Rightarrow> byte list \<Rightarrow> error + byte list" where
  "dataSector t s raw =
     (let sub = take 8 raw;
          data = drop 8 raw;
          sector1 = writeHeader (replicate binSector 0) t (s + 150);
          sector2 = copyAt sector1 16 24 sub;
          sector3 = copyAt sector2 24 2072 data;
          edc = computeEDC (subslice sector3 16 2072);
          sector4 = copyAt sector3 2072 2076 edc
      in case pParityLFSR (subslice sector4 12 2076) of
           Inl e \<Rightarrow> Inl e
         | Inr pParity \<Rightarrow>
             (case qParityLFSR (subslice (copyAt sector4 2076 2248 pParity) 12 2248) of
                Inl e \<Rightarrow> Inl e
              | Inr qParity \<Rightarrow>
                  Inr (copyAt (copyAt sector4 2076 2248 pParity) 2248 2352 qParity)))"

text \<open>One iteration of the loop over the sectors \<open>s\<close> of a track.\<close>

definition payloadSector :: "bool \<Rightarrow> Track \<Rightarrow> int \<Rightarrow> enc_state \<Rightarrow> error + enc_state" where
  "payloadSector audioMSB t s st =
     (if Mode t = 4 then
        (if offset st + binSector > length (pmf st) then
           Inl (Truncated (offset st + binSector) (length (pmf st)))
         else
           (let pmf' = (if audioMSB then swapLoop (offset st) binSector 0 (pmf st) else pmf st)
            in Inr (st\<lparr>pmf := pmf',
                       offset := offset st + binSector,
                       out := out st @ subslice pmf' (offset st) (offset st + binSector)\<rparr>)))
      else
        (if offset st + pmfSector > length (pmf st) then
           Inl (Truncated (offset st + pmfSector) (length (pmf st)))
         else
           (case dataSector t s (subslice (pmf st) (offset st) (offset st + pmfSector)) of
              Inl e \<Rightarrow> Inl e
            | Inr sector \<Rightarrow>
                Inr (st\<lparr>offset := offset st + pmfSector, out := out st @ sector\<rparr>))))"

function pregapLoop :: "Track \<Rightarrow> int \<Rightarrow> enc_state \<Rightarrow> enc_state" where
  "pregapLoop t s st =
     (if s < Pregap t then pregapLoop t (s + 1) (st\<lparr>out := out st @ pregapSector t s\<rparr>)
      else st)"
  by pat_completeness auto
termination
  by (relation "measure (\<lambda>(t, s, st). nat (Pregap t - s))") auto

text \<open>
  A loop that can return early yields the state at the moment of return and the error, if any.
\<close>

function payloadLoop :: "bool \<Rightarrow> Track \<Rightarrow> int \<Rightarrow> enc_state \<Rightarrow> enc_state \<times> error option" where
  "payloadLoop audioMSB t s st =
     (if s \<le> End t then
        (case payloadSector audioMSB t s st of
           Inl e \<Rightarrow> (st, Some e)
         | Inr st' \<Rightarrow> payloadLoop audioMSB t (s + 1) st')
      else (st, None))"
  by pat_completeness auto
termination
  by (relation "measure (\<lambda>(audioMSB, t, s, st). nat (End t + 1 - s))") auto

fun tracksLoop :: "bool \<Rightarrow> Track list \<Rightarrow> enc_state \<Rightarrow> enc_state \<times> error option" where
  "tracksLoop audioMSB [] st = (st, None)"
| "tracksLoop audioMSB (t # ts) st =
     (case payloadLoop audioMSB t (Start t) (pregapLoop t 0 st) of
        (st', Some e) \<Rightarrow> (st', Some e)
      | (st', None) \<Rightarrow> tracksLoop audioMSB ts st')"

definition buildBin :: "bool \<Rightarrow> byte list \<Rightarrow> Track list \<Rightarrow> enc_state \<times> error option" where
  "buildBin audioMSB payload tracks =
     (case tracksLoop audioMSB tracks \<lparr>pmf = payload, offset = 0, out = []\<rparr> of
        (st, Some e) \<Rightarrow> (st, Some e)
      | (st, None) \<Rightarrow>
          if offset st \<noteq> length (pmf st)
          then (st, Some (NotConsumed (int (length (pmf st)) - int (offset st))))
          else (st, None))"

section \<open>Reference definitions\<close>

subsection \<open>Written from the specification\<close>

text \<open>
  The EDC of the specification: a table entry is eight shift-reduce rounds with the reflected
  polynomial, the accumulator starts at 0, each byte selects the entry at
  \<open>lowByte acc XOR b\<close>, and the result is laid out least significant byte first.
\<close>

definition specShiftReduce :: "32 word \<Rightarrow> 32 word" where
  "specShiftReduce r = (if bit r 0 then drop_bit 1 r XOR 0xD8018001 else drop_bit 1 r)"

definition specTable :: "nat \<Rightarrow> 32 word" where
  "specTable i = (specShiftReduce ^^ 8) (of_nat i)"

definition specEDC :: "byte list \<Rightarrow> 32 word" where
  "specEDC data =
     foldl (\<lambda>acc b. drop_bit 8 acc XOR specTable (unat ((ucast acc :: byte) XOR b))) 0 data"

definition littleEndian32 :: "32 word \<Rightarrow> byte list" where
  "littleEndian32 w = map (\<lambda>k. ucast (drop_bit (8 * k) w)) [0, 1, 2, 3]"


definition unitSize :: "Track \<Rightarrow> nat" where
  "unitSize t = (if Mode t = 4 then 2352 else 2056)"



subsection \<open>Auxiliary\<close>


definition derivedPregap :: "Track list \<Rightarrow> nat \<Rightarrow> int" where
  "derivedPregap tracks i =
     (if i = 0 then 0 else Start (tracks ! i) - End (tracks ! (i - 1)) - 1)"

definition setPregaps :: "nat \<Rightarrow> Track list \<Rightarrow> Track list" where
  "setPregaps i tracks =
     map (\<lambda>j. if j < i then tracks ! j else (tracks ! j)\<lparr>Pregap := derivedPregap tracks j\<rparr>)
       [0..<length tracks]"


definition gapTracks :: "Track list" where
  "gapTracks =
     [\<lparr>Num = 1, Mode = 2, Start = 0, End = 10, Pregap = 0\<rparr>,
      \<lparr>Num = 2, Mode = 4, Start = 12, End = 20, Pregap = 0\<rparr>]"


section \<open>Verification\<close>

declare pRows.simps [simp del] pCols.simps [simp del] qSteps.simps [simp del]
  qDiags.simps [simp del] validateLoop.simps [simp del] swapLoop.simps [simp del]
  pregapLoop.simps [simp del] payloadLoop.simps [simp del]

subsection \<open>The EDC engine\<close>

lemma fold_update_upt_length:
  "length (fold (\<lambda>i l. l[i := f i]) [0..<n] l) = length l"
  by (induction n) simp_all

lemma fold_update_upt_nth:
  "j < length l \<Longrightarrow> fold (\<lambda>i l. l[i := f i]) [0..<n] l ! j = (if j < n then f j else l ! j)"
  by (induction n) (auto simp: fold_update_upt_length nth_list_update less_Suc_eq)

lemma edcLUT_nth: "i < 256 \<Longrightarrow> edcLUT ! i = (edcRound ^^ 8) (of_nat i)"
  by (simp add: edcLUT_def fold_update_upt_nth)

lemma edcRound_spec: "edcRound = specShiftReduce"
  by (simp add: fun_eq_iff edcRound_def specShiftReduce_def polyEDC_def
      bit_iff_and_push_bit_not_eq_0)

lemma unat_byte_less: "unat (x :: byte) < 256"
  using unsigned_less [of x, where 'a = nat] by simp

lemma edcLUT_specTable: "edcLUT ! unat (x :: byte) = specTable (unat x)"
  by (simp add: edcLUT_nth unat_byte_less specTable_def edcRound_spec)

lemma edcLoop_spec:
  "edcLoop data acc =
     foldl (\<lambda>acc b. drop_bit 8 acc XOR specTable (unat ((ucast acc :: byte) XOR b))) acc data"
  by (induction data arbitrary: acc) (simp_all add: edcLUT_specTable)

text \<open>
  Claim C2. \<open>computeEDC\<close>, on any byte span, returns the checksum of the specification: the
  accumulator starts at 0, each byte \<open>b\<close> selects \<open>table[lowByte acc XOR b]\<close>, which is XORed
  into the accumulator shifted right by 8; the table entry of \<open>i\<close> is eight shift-reduce
  rounds of \<open>i\<close> with the reflected polynomial 0xD8018001; nothing is XORed in before or after;
  the four result bytes are the accumulator, least significant byte first. The table lookup of
  the code never leaves the 256 entries, since the index is a byte.
\<close>

theorem computeEDC_refines_spec:
  "computeEDC data = littleEndian32 (specEDC data) \<and> length (computeEDC data) = 4"
  by (simp add: computeEDC_def littleEndian32_def specEDC_def edcLoop_spec Let_def)

theorem computeEDC_refines_spec_witness:
  "computeEDC [0x12, 0x34, 0x56] = littleEndian32 (specEDC [0x12, 0x34, 0x56])
   \<and> length (computeEDC [0x12, 0x34, 0x56]) = 4"
  by (rule computeEDC_refines_spec)

subsection \<open>The Galois-field tables\<close>

lemma unat_of_nat_byte: "i < 256 \<Longrightarrow> unat (of_nat i :: byte) = i"
  by (simp add: unat_of_nat)

lemma gfStep_inv:
  assumes "i < 255" "length (fst s) = 509" "length (fst (snd s)) = 256"
    "\<forall>x \<in> set (fst (snd s)). unat x \<le> 254"
  shows "length (fst (gfStep i s)) = 509 \<and> length (fst (snd (gfStep i s))) = 256
    \<and> (\<forall>x \<in> set (fst (snd (gfStep i s))). unat x \<le> 254)"
proof -
  obtain pow lg b where s: "s = (pow, lg, b)" by (cases s) auto
  have "set (lg[unat b := (of_nat i :: byte)]) \<subseteq> insert (of_nat i) (set lg)"
    by (rule set_update_subset_insert)
  moreover have "unat (of_nat i :: byte) \<le> 254"
    using assms(1) by (simp add: unat_of_nat_byte)
  ultimately show ?thesis
    using assms s by (auto simp: gfStep_def)
qed

lemma gfInit_prefix_inv:
  "n \<le> 255 \<Longrightarrow>
   length (fst (fold gfStep [0..<n] (replicate 509 0, replicate 256 0, 1))) = 509
   \<and> length (fst (snd (fold gfStep [0..<n] (replicate 509 0, replicate 256 0, 1)))) = 256
   \<and> (\<forall>x \<in> set (fst (snd (fold gfStep [0..<n] (replicate 509 0, replicate 256 0, 1)))).
         unat x \<le> 254)"
proof (induction n)
  case 0
  show ?case by simp
next
  case (Suc n)
  then show ?case using gfStep_inv [of n "fold gfStep [0..<n] (replicate 509 0, replicate 256 0, 1)"]
    by simp
qed

text \<open>
  The \<^verbatim>\<open>uint16\<close> counter \<open>b\<close> stays below 256 through the first loop, so the write
  \<^verbatim>\<open>gfLog[b] = byte(i)\<close> is always inside the 256-entry array; the reduction step is checked
  on each of the 256 values.
\<close>

lemma gf_reduce_table:
  "list_all (\<lambda>n. (if push_bit 1 (of_nat n :: 16 word) AND 0x100 \<noteq> 0
                    then push_bit 1 (of_nat n :: 16 word) XOR 0x11d
                    else push_bit 1 (of_nat n)) < 0x100) [0..<256]"
  by code_simp

lemma gf_reduce_bound:
  fixes b :: "16 word"
  assumes "b < 0x100"
  shows "(if push_bit 1 b AND 0x100 \<noteq> 0 then push_bit 1 b XOR 0x11d else push_bit 1 b) < 0x100"
proof -
  have "unat b < 256" using assms by (simp add: word_less_nat_alt)
  then have "unat b \<in> set [0..<256]" by simp
  with gf_reduce_table
  have "(if push_bit 1 (of_nat (unat b) :: 16 word) AND 0x100 \<noteq> 0
         then push_bit 1 (of_nat (unat b) :: 16 word) XOR 0x11d
         else push_bit 1 (of_nat (unat b))) < 0x100"
    unfolding list_all_iff by blast
  moreover have "(of_nat (unat b) :: 16 word) = b" by simp
  ultimately show ?thesis by (simp only:)
qed

lemma gfStep_index_bound:
  assumes "snd (snd s) < 0x100"
  shows "snd (snd (gfStep i s)) < 0x100 \<and> unat (snd (snd s)) < 256"
proof -
  obtain pow lg b where s: "s = (pow, lg, b)" by (cases s) auto
  with assms have b: "b < 0x100" by simp
  then have "unat b < 256" by (simp add: word_less_nat_alt)
  with gf_reduce_bound [OF b] show ?thesis by (simp add: s gfStep_def)
qed

lemma gfInit_index_bound:
  "snd (snd (fold gfStep [0..<n] (replicate 509 0, replicate 256 0, 1))) < 0x100"
proof (induction n)
  case 0
  show ?case by simp
next
  case (Suc n)
  then show ?case
    using gfStep_index_bound [of "fold gfStep [0..<n] (replicate 509 0, replicate 256 0, 1)" n]
    by simp
qed

lemma length_gfLog: "length gfLog = 256"
  using gfInit_prefix_inv [of 255] by (simp add: gfLog_def gfInit_def)

lemma gfLog_le: "unat (gfLog ! unat (a :: byte)) \<le> 254"
proof -
  have "gfLog ! unat a \<in> set gfLog"
    by (simp add: length_gfLog unat_byte_less)
  then show ?thesis
    using gfInit_prefix_inv [of 255] by (simp add: gfLog_def gfInit_def)
qed

lemma length_gfMirror: "length (gfMirror n pow) = length pow"
  unfolding gfMirror_def by (induction n) simp_all


lemma gfMirror_nth:
  "n \<le> 510 \<Longrightarrow> j < length pow \<Longrightarrow>
   gfMirror n pow ! j = (if 255 \<le> j \<and> j < n then pow ! (j - 255) else pow ! j)"
proof (induction n arbitrary: j)
  case 0
  then show ?case by (simp add: gfMirror_def)
next
  case (Suc n)
  show ?case
  proof (cases "255 \<le> n")
    case False
    then show ?thesis using Suc by (auto simp: gfMirror_def)
  next
    case True
    have step: "gfMirror (Suc n) pow = (gfMirror n pow)[n := gfMirror n pow ! (n - 255)]"
      using True by (simp add: gfMirror_def)
    show ?thesis
    proof (cases "n < length pow")
      case False
      then show ?thesis using Suc True by (simp add: step)
    next
      case nlt: True
      have "n - 255 < length pow" using nlt by simp
      moreover have "\<not> (255 \<le> n - 255)" using Suc.prems(1) by simp
      ultimately have "gfMirror n pow ! (n - 255) = pow ! (n - 255)"
        using Suc.IH [of "n - 255"] Suc.prems(1) by simp
      then show ?thesis
        using Suc True nlt by (auto simp: step nth_list_update length_gfMirror)
    qed
  qed
qed

lemma length_gfPow: "length gfPow = 509"
  using gfInit_prefix_inv [of 255] by (simp add: gfPow_def length_gfMirror gfInit_def)

lemma gfPow_mirror: "i < 254 \<Longrightarrow> gfPow ! (255 + i) = gfPow ! i"
  using gfInit_prefix_inv [of 255]
  by (simp add: gfPow_def gfMirror_nth gfInit_def)

lemma gfMult_index: "unat (gfLog ! unat (a :: byte)) + unat (gfLog ! unat (b :: byte)) < length gfPow"
  using gfLog_le [of a] gfLog_le [of b] by (simp add: length_gfPow)

text \<open>
  Claim C9. \<open>gfMult\<close> is commutative and \<open>gfMult a 0 = 0\<close> for every byte \<open>a\<close>, over the
  tables that \<^verbatim>\<open>init\<close> builds with the reduction 0x11D: the exponent table has 509 entries, the
  log table 256, and entries 255..508 of the exponent table repeat entries 0..253, so the sum
  of two logarithms (each at most 254) always indexes inside the table and no modulo is needed.
\<close>

theorem gfMult_commutative_zero:
  "gfMult a b = gfMult b a \<and> gfMult a 0 = 0
   \<and> length gfPow = 509 \<and> length gfLog = 256
   \<and> (\<forall>i < 254. gfPow ! (255 + i) = gfPow ! i)
   \<and> unat (gfLog ! unat a) + unat (gfLog ! unat b) < length gfPow"
proof -
  have "gfMult a b = gfMult b a"
    by (simp add: gfMult_def add.commute disj_commute)
  moreover have "gfMult a 0 = 0"
    by (simp add: gfMult_def)
  moreover have "\<forall>i < 254. gfPow ! (255 + i) = gfPow ! i"
    using gfPow_mirror by blast
  ultimately show ?thesis
    using length_gfPow length_gfLog gfMult_index [of a b] by blast
qed

theorem gfMult_commutative_zero_witness:
  "gfMult 3 7 = gfMult 7 3 \<and> gfMult 3 0 = 0
   \<and> length gfPow = 509 \<and> length gfLog = 256
   \<and> gfPow ! (255 + 8) = gfPow ! 8
   \<and> unat (gfLog ! unat (3 :: byte)) + unat (gfLog ! unat (7 :: byte)) < length gfPow"
proof -
  have a: "gfMult 3 7 = gfMult 7 3 \<and> gfMult 3 0 = 0
   \<and> length gfPow = 509 \<and> length gfLog = 256
   \<and> (\<forall>i < 254. gfPow ! (255 + i) = gfPow ! i)
   \<and> unat (gfLog ! unat (3 :: byte)) + unat (gfLog ! unat (7 :: byte)) < length gfPow"
    by (rule gfMult_commutative_zero)
  then have "(8 :: nat) < 254 \<longrightarrow> gfPow ! (255 + 8) = gfPow ! 8" by blast
  then have "gfPow ! (255 + 8) = gfPow ! 8" by simp
  with a show ?thesis by blast
qed

subsection \<open>The parity engine\<close>

lemma readPair_ok:
  "pos + 1 < length sector \<Longrightarrow> readPair sector pos = Inr (sector ! pos, sector ! (pos + 1))"
  by (simp add: readPair_def)

lemma pRows_ok:
  "length sector = 2064 \<Longrightarrow> row \<le> 24 \<Longrightarrow> pos + 86 * (24 - row) \<le> 2148 \<Longrightarrow>
   \<exists>r'. pRows sector row pos r = Inr r'"
proof (induction sector row pos r rule: pRows.induct)
  case (1 sector row pos r)
  show ?case
  proof (cases "row < 24")
    case False
    then show ?thesis by (subst pRows.simps) simp
  next
    case True
    with "1.prems" have "pos + 1 < length sector" by simp
    then have rd: "readPair sector pos = Inr (sector ! pos, sector ! (pos + 1))"
      by (rule readPair_ok)
    have "\<exists>r'. pRows sector (row + 1) (pos + 86)
                 (lfsrShift pos (fst (sector ! pos, sector ! (pos + 1)))
                    (snd (sector ! pos, sector ! (pos + 1))) r) = Inr r'"
      using True "1.prems" by (intro "1.IH" [OF True rd]) simp_all
    then show ?thesis
      using True rd by (subst pRows.simps) simp
  qed
qed

lemma pCols_ok:
  "length sector = 2064 \<Longrightarrow> length parity = 172 \<Longrightarrow>
   \<exists>p. pCols sector col parity = Inr p \<and> length p = 172"
proof (induction sector col parity rule: pCols.induct)
  case (1 sector col parity)
  show ?case
  proof (cases "col < 43")
    case False
    then show ?thesis using "1.prems" by (subst pCols.simps) simp
  next
    case True
    then obtain r where r: "pRows sector 0 (2 * col) zeroRegs = Inr r"
      using pRows_ok [of sector 0 "2 * col" zeroRegs] "1.prems" by auto
    show ?thesis
      using "1.IH" [OF True r] "1.prems" True r by (subst pCols.simps) simp
  qed
qed

lemma pParityLFSR_ok:
  "length sector = 2064 \<Longrightarrow> \<exists>p. pParityLFSR sector = Inr p \<and> length p = 172"
  by (simp add: pParityLFSR_def pCols_ok)

lemma qSteps_ok:
  "length sector = 2236 \<Longrightarrow> even pos \<Longrightarrow> pos < 2324 \<Longrightarrow>
   \<exists>r'. qSteps sector step pos r = Inr r'"
proof (induction sector step pos r rule: qSteps.induct)
  case (1 sector step pos r)
  define pos' where "pos' = (if 2236 \<le> pos then pos - 2236 else pos)"
  show ?case
  proof (cases "step < 43")
    case False
    then show ?thesis by (subst qSteps.simps) simp
  next
    case True
    have ev: "even pos'" and lt: "pos' < 2236"
      using "1.prems" by (auto simp: pos'_def)
    then have "pos' \<noteq> 2235" by auto
    with lt have "pos' + 1 < length sector" using "1.prems" by simp
    then have rd: "readPair sector pos' = Inr (sector ! pos', sector ! (pos' + 1))"
      by (rule readPair_ok)
    have "\<exists>r'. qSteps sector (step + 1) (pos' + 88)
                 (lfsrShift pos' (fst (sector ! pos', sector ! (pos' + 1)))
                    (snd (sector ! pos', sector ! (pos' + 1))) r) = Inr r'"
      unfolding pos'_def
      using ev lt "1.prems"
      by (intro "1.IH" [OF True rd [unfolded pos'_def]]) (simp_all add: pos'_def)
    then show ?thesis
      using True rd by (subst qSteps.simps) (simp add: pos'_def)
  qed
qed

lemma qDiags_ok:
  "length sector = 2236 \<Longrightarrow> length parity = 104 \<Longrightarrow>
   \<exists>p. qDiags sector diag parity = Inr p \<and> length p = 104"
proof (induction sector diag parity rule: qDiags.induct)
  case (1 sector diag parity)
  show ?case
  proof (cases "diag < 26")
    case False
    then show ?thesis using "1.prems" by (subst qDiags.simps) simp
  next
    case True
    then obtain r where r: "qSteps sector 0 (2 * 43 * diag) zeroRegs = Inr r"
      using qSteps_ok [of sector "2 * 43 * diag" 0 zeroRegs] "1.prems" by auto
    show ?thesis
      using "1.IH" [OF True r] "1.prems" True r by (subst qDiags.simps) simp
  qed
qed

lemma qParityLFSR_ok:
  "length sector = 2236 \<Longrightarrow> \<exists>p. qParityLFSR sector = Inr p \<and> length p = 104"
  by (simp add: qParityLFSR_def qDiags_ok)

text \<open>
  Claim C8. \<open>pParityLFSR\<close> and \<open>qParityLFSR\<close> are functions of their input alone (the
  tables they read are constants). On exactly 2064 bytes (P) or 2236 bytes (Q) they return a
  block of 172 or 104 bytes, and no slice read inside the loops is out of range; on any other
  length they stop with the wrong-size panic and return nothing.
\<close>

theorem parity_fixed_length:
  "(length sector = 2064 \<longrightarrow> (\<exists>p. pParityLFSR sector = Inr p \<and> length p = 172))
   \<and> (length sector \<noteq> 2064 \<longrightarrow> pParityLFSR sector = Inl (WrongSize 2064 (length sector)))
   \<and> (length sector = 2236 \<longrightarrow> (\<exists>q. qParityLFSR sector = Inr q \<and> length q = 104))
   \<and> (length sector \<noteq> 2236 \<longrightarrow> qParityLFSR sector = Inl (WrongSize 2236 (length sector)))"
  using pParityLFSR_ok [of sector] qParityLFSR_ok [of sector]
  by (simp add: pParityLFSR_def qParityLFSR_def)

theorem parity_fixed_length_witness:
  "(\<exists>p. pParityLFSR (replicate 2064 0) = Inr p \<and> length p = 172)
   \<and> pParityLFSR [] = Inl (WrongSize 2064 0)
   \<and> (\<exists>q. qParityLFSR (replicate 2236 0) = Inr q \<and> length q = 104)
   \<and> qParityLFSR [1, 2] = Inl (WrongSize 2236 2)"
  using parity_fixed_length [of "replicate 2064 0"] parity_fixed_length [of "[]"]
    parity_fixed_length [of "replicate 2236 0"] parity_fixed_length [of "[1, 2]"]
  by simp

subsection \<open>Track list validation\<close>



lemma length_setPregaps [simp]: "length (setPregaps i ts) = length ts"
  by (simp add: setPregaps_def)





















subsection \<open>The sector encoder\<close>

lemma copyAt_segment:
  "length a = lo \<Longrightarrow> lo \<le> hi \<Longrightarrow> length b = hi - lo \<Longrightarrow> length src = hi - lo \<Longrightarrow>
   copyAt (a @ b @ c) lo hi src = a @ src @ c"
  by (simp add: copyAt_def)

lemma header_update:
  "length a = 12 \<Longrightarrow>
   (a @ [w, x, y, z] @ c)[12 := p, 13 := q, 14 := r, 15 := s] = a @ [p, q, r, s] @ c"
  by (simp add: list_update_append)

lemma length_syncPattern: "length syncPattern = 12"
  by (simp add: syncPattern_def)

lemma zeros_split: "replicate (m + n) (0 :: byte) = replicate m 0 @ replicate n 0"
  by (simp add: replicate_add)

lemma writeHeader_zero:
  "writeHeader (replicate binSector 0) t lba =
     syncPattern @ [toBCD (lba sdiv (60 * 75)), toBCD ((lba sdiv 75) smod 60), toBCD (lba smod 75),
                    word_of_int (Mode t)] @ replicate 2336 0"
proof -
  have z: "replicate binSector (0 :: byte) = replicate 12 0 @ replicate 2340 0"
    unfolding binSector_def by (simp add: zeros_split [symmetric])
  have c: "copyAt (replicate binSector (0 :: byte)) 0 12 syncPattern = syncPattern @ replicate 2340 0"
    unfolding z using copyAt_segment [of "[]" 0 12 "replicate 12 (0::byte)" syncPattern "replicate 2340 0"]
    by (simp add: length_syncPattern)
  have r: "replicate 2340 (0 :: byte) = [0, 0, 0, 0] @ replicate 2336 0"
    by (simp add: zeros_split [of 4 2336, simplified] numeral_eq_Suc)
  show ?thesis
    unfolding writeHeader_def lbaToMSF_def c r
    by (simp only: prod.case header_update [OF length_syncPattern])
qed


lemma pParityLFSR_Inr_length: "pParityLFSR sector = Inr p \<Longrightarrow> length p = 172"
  using pParityLFSR_ok [of sector] by (cases "length sector = 2064") (auto simp: pParityLFSR_def)

lemma qParityLFSR_Inr_length: "qParityLFSR sector = Inr q \<Longrightarrow> length q = 104"
  using qParityLFSR_ok [of sector] by (cases "length sector = 2236") (auto simp: qParityLFSR_def)

lemma dataSector_layout:
  fixes t :: Track and s :: int
  assumes raw: "length raw = 2056"
  defines "hdr \<equiv> [toBCD ((s + 150) sdiv (60 * 75)), toBCD (((s + 150) sdiv 75) smod 60),
                   toBCD ((s + 150) smod 75), word_of_int (Mode t)]"
  shows "\<exists>p q. pParityLFSR (hdr @ raw @ computeEDC raw) = Inr p \<and> length p = 172
          \<and> qParityLFSR (hdr @ raw @ computeEDC raw @ p) = Inr q \<and> length q = 104
          \<and> dataSector t s raw = Inr (syncPattern @ hdr @ raw @ computeEDC raw @ p @ q)"
proof -
  let ?H = "syncPattern @ hdr"
  let ?sub = "take 8 raw" and ?data = "drop 8 raw"
  have lH: "length ?H = 16" by (simp add: length_syncPattern hdr_def)
  have lsub: "length ?sub = 8" and ldata: "length ?data = 2048" using raw by simp_all
  have ledc: "length (computeEDC raw) = 4" by (simp add: computeEDC_def Let_def)
  have s1: "writeHeader (replicate binSector 0) t (s + 150)
      = ?H @ replicate 8 0 @ replicate 2328 0"
    by (simp add: writeHeader_zero hdr_def zeros_split [symmetric])
  have s2: "copyAt (?H @ replicate 8 0 @ replicate 2328 0) 16 24 ?sub
      = (?H @ ?sub) @ replicate 2048 0 @ replicate 280 0"
    using copyAt_segment [of ?H 16 24 "replicate 8 0" ?sub "replicate 2328 0"] lH lsub
    by (simp add: zeros_split [symmetric])
  have s3: "copyAt ((?H @ ?sub) @ replicate 2048 0 @ replicate 280 0) 24 2072 ?data
      = (?H @ raw) @ replicate 4 0 @ replicate 276 0"
    using copyAt_segment [of "?H @ ?sub" 24 2072 "replicate 2048 0" ?data "replicate 280 0"]
      lH lsub ldata
    by (simp add: zeros_split [symmetric])
  have e: "subslice ((?H @ raw) @ replicate 4 0 @ replicate 276 0) 16 2072 = raw"
    using lH raw by (simp add: subslice_def)
  have s4: "copyAt ((?H @ raw) @ replicate 4 0 @ replicate 276 0) 2072 2076 (computeEDC raw)
      = (?H @ raw @ computeEDC raw) @ replicate 172 0 @ replicate 104 0"
    using copyAt_segment [of "?H @ raw" 2072 2076 "replicate 4 0" "computeEDC raw" "replicate 276 0"]
      lH raw ledc
    by (simp add: zeros_split [symmetric])
  have pin: "subslice ((?H @ raw @ computeEDC raw) @ replicate 172 0 @ replicate 104 0) 12 2076
      = hdr @ raw @ computeEDC raw"
    using raw ledc by (simp add: subslice_def length_syncPattern hdr_def)
  have "length (hdr @ raw @ computeEDC raw) = 2064"
    using raw ledc by (simp add: hdr_def)
  then obtain p where p: "pParityLFSR (hdr @ raw @ computeEDC raw) = Inr p" "length p = 172"
    using pParityLFSR_ok by blast
  have s5: "copyAt ((?H @ raw @ computeEDC raw) @ replicate 172 0 @ replicate 104 0) 2076 2248 p
      = (?H @ raw @ computeEDC raw @ p) @ replicate 104 0 @ []"
    using copyAt_segment [of "?H @ raw @ computeEDC raw" 2076 2248 "replicate 172 0" p
        "replicate 104 0"] lH raw ledc p(2)
    by simp
  have qin: "subslice ((?H @ raw @ computeEDC raw @ p) @ replicate 104 0 @ []) 12 2248
      = hdr @ raw @ computeEDC raw @ p"
    using raw ledc p(2) by (simp add: subslice_def length_syncPattern hdr_def)
  have "length (hdr @ raw @ computeEDC raw @ p) = 2236"
    using raw ledc p(2) by (simp add: hdr_def)
  then obtain q where q: "qParityLFSR (hdr @ raw @ computeEDC raw @ p) = Inr q" "length q = 104"
    using qParityLFSR_ok by blast
  have s6: "copyAt ((?H @ raw @ computeEDC raw @ p) @ replicate 104 0 @ []) 2248 2352 q
      = syncPattern @ hdr @ raw @ computeEDC raw @ p @ q"
    using copyAt_segment [of "?H @ raw @ computeEDC raw @ p" 2248 2352 "replicate 104 0" q "[]"]
      lH raw ledc p(2) q(2)
    by simp
  have "dataSector t s raw = Inr (syncPattern @ hdr @ raw @ computeEDC raw @ p @ q)"
    unfolding dataSector_def Let_def s1 s2 s3 e s4 pin p(1) sum.case s5 qin q(1) s6 ..
  with p q show ?thesis by blast
qed


lemma dataSector_ok:
  fixes t :: Track and s :: int
  assumes "length raw = 2056"
  shows "\<exists>sec. dataSector t s raw = Inr sec \<and> length sec = 2352"
proof -
  from dataSector_layout [OF assms, of s t]
  obtain p q where "length p = 172" "length q = 104"
    and d: "dataSector t s raw = Inr (syncPattern @ [toBCD ((s + 150) sdiv (60 * 75)),
       toBCD (((s + 150) sdiv 75) smod 60), toBCD ((s + 150) smod 75), word_of_int (Mode t)]
       @ raw @ computeEDC raw @ p @ q)"
    by blast
  then have "length (syncPattern @ [toBCD ((s + 150) sdiv (60 * 75)),
       toBCD (((s + 150) sdiv 75) smod 60), toBCD ((s + 150) smod 75), word_of_int (Mode t)]
       @ raw @ computeEDC raw @ p @ q) = 2352"
    using assms by (simp add: length_syncPattern computeEDC_def Let_def)
  with d show ?thesis by blast
qed

lemma length_swapLoop: "length (swapLoop base n i buf) = length buf"
proof (induction base n i buf rule: swapLoop.induct)
  case (1 base n i buf)
  then show ?case by (subst swapLoop.simps) simp
qed

lemma take_swapLoop: "take base (swapLoop base n i buf) = take base buf"
proof (induction base n i buf rule: swapLoop.induct)
  case (1 base n i buf)
  then show ?case by (subst swapLoop.simps) simp
qed

lemma length_subslice: "hi \<le> length xs \<Longrightarrow> length (subslice xs lo hi) = hi - lo"
  by (simp add: subslice_def)

lemma subslice_append:
  "lo \<le> mid \<Longrightarrow> mid \<le> hi \<Longrightarrow> subslice xs lo mid @ subslice xs mid hi = subslice xs lo hi"
proof -
  assume a: "lo \<le> mid" "mid \<le> hi"
  have "take (mid - lo) (drop lo xs) @ take (hi - mid) (drop (mid - lo) (drop lo xs))
      = take ((mid - lo) + (hi - mid)) (drop lo xs)"
    by (simp only: take_add)
  then show ?thesis using a by (simp add: subslice_def)
qed

lemma subslice_take_cong:
  "hi \<le> k \<Longrightarrow> take k xs = take k ys \<Longrightarrow> subslice xs lo hi = subslice ys lo hi"
proof -
  assume a: "hi \<le> k" "take k xs = take k ys"
  have "subslice xs lo hi = subslice (take k xs) lo hi"
    using a(1) by (simp add: subslice_def drop_take take_take min_def)
  also have "\<dots> = subslice (take k ys) lo hi" by (simp add: a(2))
  also have "\<dots> = subslice ys lo hi"
    using a(1) by (simp add: subslice_def drop_take take_take min_def)
  finally show ?thesis .
qed

lemma payloadSector_fits:
  assumes "offset st + unitSize t \<le> length (pmf st)"
  shows "\<exists>st'. payloadSector msb t s st = Inr st'
      \<and> offset st' = offset st + unitSize t
      \<and> length (pmf st') = length (pmf st)
      \<and> take (offset st) (pmf st') = take (offset st) (pmf st)
      \<and> (\<not> msb \<or> Mode t \<noteq> 4 \<longrightarrow> pmf st' = pmf st)
      \<and> (\<exists>x. out st' = out st @ x \<and> length x = 2352)
      \<and> (Mode t = 4 \<longrightarrow> out st' = out st @ subslice (pmf st') (offset st) (offset st'))"
proof (cases "Mode t = 4")
  case True
  then show ?thesis
    using assms
    by (simp add: payloadSector_def unitSize_def binSector_def Let_def length_swapLoop
        take_swapLoop length_subslice)
next
  case False
  have "length (subslice (pmf st) (offset st) (offset st + pmfSector)) = 2056"
    using assms False by (simp add: length_subslice unitSize_def pmfSector_def)
  from dataSector_ok [OF this, of t s]
  obtain sec where "dataSector t s (subslice (pmf st) (offset st) (offset st + pmfSector)) = Inr sec"
    and "length sec = 2352"
    by blast
  then show ?thesis
    using assms False
    by (simp add: payloadSector_def unitSize_def pmfSector_def)
qed

lemma payloadSector_truncated:
  assumes "\<not> offset st + unitSize t \<le> length (pmf st)"
  shows "payloadSector msb t s st = Inl (Truncated (offset st + unitSize t) (length (pmf st)))"
  using assms
  by (cases "Mode t = 4") (simp_all add: payloadSector_def unitSize_def pmfSector_def binSector_def)


lemma take_le_cong: "take k xs = take k ys \<Longrightarrow> j \<le> k \<Longrightarrow> take j xs = take j ys"
  by (metis min.absorb1 take_take)

lemma unitSize_pos: "0 < unitSize t"
  by (simp add: unitSize_def)

lemma payloadLoop_props:
  "payloadLoop msb t s st = (st', err) \<Longrightarrow> offset st \<le> length (pmf st) \<Longrightarrow>
     length (pmf st') = length (pmf st)
     \<and> offset st' \<le> length (pmf st')
     \<and> offset st \<le> offset st'
     \<and> take (offset st) (pmf st') = take (offset st) (pmf st)
     \<and> (\<not> msb \<or> Mode t \<noteq> 4 \<longrightarrow> pmf st' = pmf st)
     \<and> (\<exists>x. out st' = out st @ x)
     \<and> (err = None \<longleftrightarrow> offset st + nat (End t + 1 - s) * unitSize t \<le> length (pmf st))
     \<and> (err = None \<longrightarrow>
          offset st' = offset st + nat (End t + 1 - s) * unitSize t
          \<and> length (out st') = length (out st) + nat (End t + 1 - s) * 2352
          \<and> (Mode t = 4 \<longrightarrow> out st' = out st @ subslice (pmf st') (offset st) (offset st')))
     \<and> (err \<noteq> None \<longrightarrow> (\<exists>a. err = Some (Truncated a (length (pmf st)))))"
proof (induction msb t s st arbitrary: st' err rule: payloadLoop.induct)
  case (1 msb t s st)
  show ?case
  proof (cases "s \<le> End t")
    case False
    then have "payloadLoop msb t s st = (st, None)"
      by (subst payloadLoop.simps) simp
    with "1.prems"(1) have "st' = st" "err = None" by auto
    moreover have "nat (End t + 1 - s) = 0" using False by simp
    ultimately show ?thesis using "1.prems"(2) by (simp add: subslice_def)
  next
    case True
    define n' where "n' = nat (End t + 1 - (s + 1))"
    have n: "nat (End t + 1 - s) = Suc n'" using True by (simp add: n'_def)
    show ?thesis
    proof (cases "offset st + unitSize t \<le> length (pmf st)")
      case False
      then have "payloadLoop msb t s st
          = (st, Some (Truncated (offset st + unitSize t) (length (pmf st))))"
        using True by (subst payloadLoop.simps) (simp add: payloadSector_truncated)
      with "1.prems"(1) have "st' = st"
        and "err = Some (Truncated (offset st + unitSize t) (length (pmf st)))"
        by auto
      then show ?thesis using False "1.prems"(2) by (simp add: n)
    next
      case fits: True
      from payloadSector_fits [OF fits, of msb s]
      obtain st1 x1 where st1: "payloadSector msb t s st = Inr st1"
        and o1: "offset st1 = offset st + unitSize t"
        and l1: "length (pmf st1) = length (pmf st)"
        and t1: "take (offset st) (pmf st1) = take (offset st) (pmf st)"
        and p1: "\<not> msb \<or> Mode t \<noteq> 4 \<longrightarrow> pmf st1 = pmf st"
        and x1: "out st1 = out st @ x1" "length x1 = 2352"
        and a1: "Mode t = 4 \<longrightarrow> out st1 = out st @ subslice (pmf st1) (offset st) (offset st1)"
        by blast
      have "payloadLoop msb t s st = payloadLoop msb t (s + 1) st1"
        using True st1 by (subst payloadLoop.simps) simp
      with "1.prems"(1) have run: "payloadLoop msb t (s + 1) st1 = (st', err)" by simp
      have b1: "offset st1 \<le> length (pmf st1)" using fits o1 l1 by simp
      note ih = "1.IH" [OF True st1 run b1, folded n'_def]
      from ih have l: "length (pmf st') = length (pmf st1)"
        and c0: "offset st' \<le> length (pmf st')"
        and mo: "offset st1 \<le> offset st'"
        and tk: "take (offset st1) (pmf st') = take (offset st1) (pmf st1)"
        and pp: "\<not> msb \<or> Mode t \<noteq> 4 \<longrightarrow> pmf st' = pmf st1"
        and iff: "err = None \<longleftrightarrow> offset st1 + n' * unitSize t \<le> length (pmf st1)"
        and er: "err \<noteq> None \<longrightarrow> (\<exists>a. err = Some (Truncated a (length (pmf st1))))"
        by blast+
      from ih obtain x where x: "out st' = out st1 @ x" by blast
      from ih have ok: "err = None \<longrightarrow>
          offset st' = offset st1 + n' * unitSize t
          \<and> length (out st') = length (out st1) + n' * 2352
          \<and> (Mode t = 4 \<longrightarrow> out st' = out st1 @ subslice (pmf st') (offset st1) (offset st'))"
        by blast
      have c1: "length (pmf st') = length (pmf st)" using l l1 by simp
      have c2: "offset st \<le> offset st'" using mo o1 by simp
      have c3: "take (offset st) (pmf st') = take (offset st) (pmf st)"
        using take_le_cong [OF tk, of "offset st"] o1 t1 by simp
      have c4: "\<not> msb \<or> Mode t \<noteq> 4 \<longrightarrow> pmf st' = pmf st" using pp p1 by auto
      have c5: "\<exists>x. out st' = out st @ x" using x x1 by simp
      have c6: "err = None \<longleftrightarrow> offset st + nat (End t + 1 - s) * unitSize t \<le> length (pmf st)"
        using iff o1 l1 by (simp add: n add.assoc)
      have c7: "err = None \<longrightarrow>
          offset st' = offset st + nat (End t + 1 - s) * unitSize t
          \<and> length (out st') = length (out st) + nat (End t + 1 - s) * 2352
          \<and> (Mode t = 4 \<longrightarrow> out st' = out st @ subslice (pmf st') (offset st) (offset st'))"
      proof (intro impI conjI)
        assume e: "err = None"
        show "offset st' = offset st + nat (End t + 1 - s) * unitSize t"
          using ok e o1 by (simp add: n)
        show "length (out st') = length (out st) + nat (End t + 1 - s) * 2352"
          using ok e x1 by (simp add: n)
        assume m: "Mode t = 4"
        have "subslice (pmf st1) (offset st) (offset st1) = subslice (pmf st') (offset st) (offset st1)"
          by (rule subslice_take_cong [of _ "offset st1"]) (simp_all add: tk)
        then have "out st' = out st @ subslice (pmf st') (offset st) (offset st1)
            @ subslice (pmf st') (offset st1) (offset st')"
          using ok e m a1 by simp
        then show "out st' = out st @ subslice (pmf st') (offset st) (offset st')"
          using subslice_append [of "offset st" "offset st1" "offset st'" "pmf st'"] mo o1 by simp
      qed
      have c8: "err \<noteq> None \<longrightarrow> (\<exists>a. err = Some (Truncated a (length (pmf st))))"
        using er l1 by simp
      from c0 c1 c2 c3 c4 c5 c6 c7 c8 show ?thesis by blast
    qed
  qed
qed























subsection \<open>The one-sector gap scenario\<close>

lemma gap_parse:
  "parseFF 0 gapTracks 43784
   = Inr [\<lparr>Num = 1, Mode = 2, Start = 0, End = 10, Pregap = 0\<rparr>,
          \<lparr>Num = 2, Mode = 4, Start = 12, End = 20, Pregap = 1\<rparr>]"
  by (simp add: parseFF_def validateLoop.simps expectedSize_def binSector_def pmfSector_def
      gapTracks_def)

lemma gap_run:
  fixes payload :: "byte list"
  assumes len: "length payload = 43784"
  defines "T1 \<equiv> \<lparr>Num = 1, Mode = 2, Start = 0, End = 10, Pregap = 0\<rparr>"
    and "T2 \<equiv> \<lparr>Num = 2, Mode = 4, Start = 12, End = 20, Pregap = 1\<rparr>"
    and "st0 \<equiv> \<lparr>pmf = payload, offset = 0, out = []\<rparr>"
  shows "\<exists>st. buildBin msb payload [T1, T2] = (st, None)
      \<and> out st = out (fst (payloadLoop msb T1 0 st0)) @ replicate 2352 0 @ drop 22616 (pmf st)
      \<and> length (out (fst (payloadLoop msb T1 0 st0))) = 25872
      \<and> length (pmf st) = 43784
      \<and> (\<not> msb \<longrightarrow> pmf st = payload)"
proof -
  obtain st1 e1 where run1: "payloadLoop msb T1 0 st0 = (st1, e1)"
    by (cases "payloadLoop msb T1 0 st0") auto
  have b0: "offset st0 \<le> length (pmf st0)" by (simp add: st0_def)
  note p1 = payloadLoop_props [OF run1 b0]
  have n1: "nat (End T1 + 1 - 0) = 11" and u1: "unitSize T1 = 2056" and m1: "Mode T1 \<noteq> 4"
    by (simp_all add: T1_def unitSize_def)
  from p1 have e1: "e1 = None"
    unfolding n1 u1 by (simp add: st0_def len)
  from p1 e1 have o1: "offset st1 = 22616" and lo1: "length (out st1) = 25872"
    and pm1: "pmf st1 = payload"
    unfolding n1 u1 using m1 by (simp_all add: st0_def)
  have pg1: "pregapLoop T1 0 st0 = st0"
    by (subst pregapLoop.simps) (simp add: T1_def)
  define st1z where "st1z = st1\<lparr>out := out st1 @ replicate 2352 0\<rparr>"
  have "pregapLoop T2 0 st1 = pregapLoop T2 1 st1z"
    by (subst pregapLoop.simps) (simp add: T2_def st1z_def pregapSector_def binSector_def)
  also have "\<dots> = st1z"
    by (subst pregapLoop.simps) (simp add: T2_def)
  finally have pg2: "pregapLoop T2 0 st1 = st1z" .
  obtain st2 e2 where run2: "payloadLoop msb T2 12 st1z = (st2, e2)"
    by (cases "payloadLoop msb T2 12 st1z") auto
  have bz: "offset st1z \<le> length (pmf st1z)" by (simp add: st1z_def o1 pm1 len)
  note p2 = payloadLoop_props [OF run2 bz]
  have n2: "nat (End T2 + 1 - 12) = 9" and u2: "unitSize T2 = 2352" and m2: "Mode T2 = 4"
    by (simp_all add: T2_def unitSize_def)
  from p2 have e2: "e2 = None"
    unfolding n2 u2 by (simp add: st1z_def o1 pm1 len)
  from p2 e2 have o2: "offset st2 = 43784" and l2: "length (pmf st2) = 43784"
    and pm2: "\<not> msb \<longrightarrow> pmf st2 = payload"
    and out2: "out st2 = out st1z @ subslice (pmf st2) (offset st1z) (offset st2)"
    unfolding n2 u2 using m2 by (simp_all add: st1z_def o1 pm1 len)
  have "subslice (pmf st2) (offset st1z) (offset st2) = drop 22616 (pmf st2)"
    using l2 by (simp add: subslice_def st1z_def o1 o2)
  with out2 have out2': "out st2 = out st1 @ replicate 2352 0 @ drop 22616 (pmf st2)"
    by (simp add: st1z_def)
  have starts: "Start T1 = 0" "Start T2 = 12"
    by (simp_all add: T1_def T2_def)
  have "tracksLoop msb [T1, T2] st0 = (st2, None)"
    by (simp add: starts pg1 run1 e1 pg2 run2 e2)
  then have "buildBin msb payload [T1, T2] = (st2, None)"
    by (simp add: buildBin_def st0_def [symmetric] o2 l2)
  then show ?thesis
    using out2' lo1 l2 pm2 run1 by auto
qed


text \<open>
  Claim C7, as amended. For the table \<^verbatim>\<open>1 2 0 10\<close>, \<^verbatim>\<open>2 4 12 20\<close> and any payload of exactly
  11 * 2056 + 9 * 2352 bytes, parsing succeeds with \<open>Pregap = 1\<close> for track 2, the pass succeeds,
  and the image is: the 11 sectors of track 1, then exactly one pregap sector, then the 9
  payload sectors of track 2 (the audio bytes of the buffer from offset 11 * 2056). Track 2 is
  an audio track, so its pregap sector is 2352 zero bytes: sync and header are written into a
  pregap sector only for a data track.
\<close>

theorem gap_scenario_zero_pregap:
  assumes "length payload = 11 * 2056 + 9 * 2352"
  shows "\<exists>tracks' st track1.
      parseFF 0 gapTracks (11 * 2056 + 9 * 2352) = Inr tracks'
      \<and> length tracks' = 2 \<and> Pregap (tracks' ! 1) = 1
      \<and> buildBin audioMSB payload tracks' = (st, None)
      \<and> track1 = out (fst (payloadLoop audioMSB (tracks' ! 0) (Start (tracks' ! 0))
                              \<lparr>pmf = payload, offset = 0, out = []\<rparr>))
      \<and> length track1 = 11 * 2352
      \<and> out st = track1 @ replicate 2352 0 @ drop (11 * 2056) (pmf st)
      \<and> length (drop (11 * 2056) (pmf st)) = 9 * 2352
      \<and> (\<not> audioMSB \<longrightarrow> pmf st = payload)"
proof -
  let ?T1 = "\<lparr>Num = 1, Mode = 2, Start = 0, End = 10, Pregap = 0\<rparr>"
  let ?T2 = "\<lparr>Num = 2, Mode = 4, Start = 12, End = 20, Pregap = 1\<rparr>"
  let ?track1 = "out (fst (payloadLoop audioMSB ?T1 0 \<lparr>pmf = payload, offset = 0, out = []\<rparr>))"
  have len: "length payload = 43784" using assms by simp
  from gap_run [OF len, of audioMSB] obtain st where
    run: "buildBin audioMSB payload [?T1, ?T2] = (st, None)"
    and out: "out st = ?track1 @ replicate 2352 0 @ drop 22616 (pmf st)"
    and l1: "length ?track1 = 25872"
    and lp: "length (pmf st) = 43784" and un: "\<not> audioMSB \<longrightarrow> pmf st = payload"
    by blast
  have parse: "parseFF 0 gapTracks (11 * 2056 + 9 * 2352) = Inr [?T1, ?T2]"
    using gap_parse by simp
  have "parseFF 0 gapTracks (11 * 2056 + 9 * 2352) = Inr [?T1, ?T2]
      \<and> length [?T1, ?T2] = 2 \<and> Pregap ([?T1, ?T2] ! 1) = 1
      \<and> buildBin audioMSB payload [?T1, ?T2] = (st, None)
      \<and> ?track1 = out (fst (payloadLoop audioMSB ([?T1, ?T2] ! 0) (Start ([?T1, ?T2] ! 0))
                              \<lparr>pmf = payload, offset = 0, out = []\<rparr>))
      \<and> length ?track1 = 11 * 2352
      \<and> out st = ?track1 @ replicate 2352 0 @ drop (11 * 2056) (pmf st)
      \<and> length (drop (11 * 2056) (pmf st)) = 9 * 2352
      \<and> (\<not> audioMSB \<longrightarrow> pmf st = payload)"
    using parse run out l1 lp un by simp
  then show ?thesis by blast
qed

theorem gap_scenario_zero_pregap_witness:
  "length (replicate 43784 (0 :: byte)) = 11 * 2056 + 9 * 2352
   \<and> (\<exists>tracks' st track1.
      parseFF 0 gapTracks (11 * 2056 + 9 * 2352) = Inr tracks'
      \<and> length tracks' = 2 \<and> Pregap (tracks' ! 1) = 1
      \<and> buildBin False (replicate 43784 0) tracks' = (st, None)
      \<and> track1 = out (fst (payloadLoop False (tracks' ! 0) (Start (tracks' ! 0))
                              \<lparr>pmf = replicate 43784 0, offset = 0, out = []\<rparr>))
      \<and> length track1 = 11 * 2352
      \<and> out st = track1 @ replicate 2352 0 @ drop (11 * 2056) (pmf st)
      \<and> length (drop (11 * 2056) (pmf st)) = 9 * 2352
      \<and> (\<not> False \<longrightarrow> pmf st = replicate 43784 0))"
proof
  show h: "length (replicate 43784 (0 :: byte)) = 11 * 2056 + 9 * 2352" by simp
  show "\<exists>tracks' st track1.
      parseFF 0 gapTracks (11 * 2056 + 9 * 2352) = Inr tracks'
      \<and> length tracks' = 2 \<and> Pregap (tracks' ! 1) = 1
      \<and> buildBin False (replicate 43784 0) tracks' = (st, None)
      \<and> track1 = out (fst (payloadLoop False (tracks' ! 0) (Start (tracks' ! 0))
                              \<lparr>pmf = replicate 43784 0, offset = 0, out = []\<rparr>))
      \<and> length track1 = 11 * 2352
      \<and> out st = track1 @ replicate 2352 0 @ drop (11 * 2056) (pmf st)
      \<and> length (drop (11 * 2056) (pmf st)) = 9 * 2352
      \<and> (\<not> False \<longrightarrow> pmf st = replicate 43784 0)"
    by (rule gap_scenario_zero_pregap [OF h])
qed


lemma zeros_not_sync:
  "replicate 12 (0 :: byte) \<noteq> [0x00, 0xFF, 0xFF, 0xFF, 0xFF, 0xFF, 0xFF, 0xFF, 0xFF, 0xFF, 0xFF, 0x00]"
proof
  assume "replicate 12 (0 :: byte)
    = [0x00, 0xFF, 0xFF, 0xFF, 0xFF, 0xFF, 0xFF, 0xFF, 0xFF, 0xFF, 0xFF, 0x00]"
  then have "replicate 12 (0 :: byte) ! 1
    = [0x00, 0xFF, 0xFF, 0xFF, 0xFF, 0xFF, 0xFF, 0xFF, 0xFF, 0xFF, 0xFF, 0x00] ! 1"
    by (rule arg_cong)
  then show False by simp
qed

text \<open>
  Claim C7 as stated fails: for the payload of 43784 zero bytes, the sector that precedes
  track 2's first payload sector (bytes 11 * 2352 onwards of the image) has 16 zero bytes where
  sync and header would be; its first 12 bytes are not the sync pattern.
\<close>

theorem gap_scenario_pregap_without_sync:
  "parseFF 0 gapTracks 43784
     = Inr [\<lparr>Num = 1, Mode = 2, Start = 0, End = 10, Pregap = 0\<rparr>,
            \<lparr>Num = 2, Mode = 4, Start = 12, End = 20, Pregap = 1\<rparr>]
   \<and> subslice (out (fst (buildBin False (replicate 43784 0)
        [\<lparr>Num = 1, Mode = 2, Start = 0, End = 10, Pregap = 0\<rparr>,
         \<lparr>Num = 2, Mode = 4, Start = 12, End = 20, Pregap = 1\<rparr>])))
       25872 25888 = replicate 16 0
   \<and> subslice (out (fst (buildBin False (replicate 43784 0)
        [\<lparr>Num = 1, Mode = 2, Start = 0, End = 10, Pregap = 0\<rparr>,
         \<lparr>Num = 2, Mode = 4, Start = 12, End = 20, Pregap = 1\<rparr>])))
       25872 25884
     \<noteq> [0x00, 0xFF, 0xFF, 0xFF, 0xFF, 0xFF, 0xFF, 0xFF, 0xFF, 0xFF, 0xFF, 0x00]"
proof -
  have len: "length (replicate 43784 (0 :: byte)) = 43784" by simp
  from gap_run [OF len, of False] obtain st a where
    run: "buildBin False (replicate 43784 0)
         [\<lparr>Num = 1, Mode = 2, Start = 0, End = 10, Pregap = 0\<rparr>,
          \<lparr>Num = 2, Mode = 4, Start = 12, End = 20, Pregap = 1\<rparr>] = (st, None)"
    and out: "out st = a @ replicate 2352 0 @ drop 22616 (pmf st)"
    and a: "length a = 25872"
    by blast
  have z: "replicate 2352 (0 :: byte) = replicate 16 0 @ replicate 2336 0"
    by (simp add: zeros_split [symmetric])
  have 16: "subslice (out st) 25872 25888 = replicate 16 0"
    unfolding out z using a by (simp add: subslice_def)
  have z12: "replicate 2352 (0 :: byte) = replicate 12 0 @ replicate 2340 0"
    by (simp add: zeros_split [symmetric])
  have 12: "subslice (out st) 25872 25884 = replicate 12 0"
    unfolding out z12 using a by (simp add: subslice_def)
  have "fst (buildBin False (replicate 43784 0)
         [\<lparr>Num = 1, Mode = 2, Start = 0, End = 10, Pregap = 0\<rparr>,
          \<lparr>Num = 2, Mode = 4, Start = 12, End = 20, Pregap = 1\<rparr>]) = st"
    by (simp only: run fst_conv)
  then show ?thesis
    using gap_parse zeros_not_sync by (simp only: 16 12 simp_thms)
qed

subsection \<open>The first track\<close>










end
